theory Spec2Isabelle
  imports Main
begin

section \<open>Domain layer\<close>

text \<open>
  The \<^verbatim>\<open>Task\<close> and \<^verbatim>\<open>DomainEvent\<close> interfaces. JavaScript numbers are modelled as
  \<^typ>\<open>int\<close>: every number the core handles is a counter, a millisecond reading of the
  clock or a sum of the two. The fields \<^verbatim>\<open>id\<close> and \<^verbatim>\<open>type\<close> carry a suffix, since
  \<^term>\<open>id\<close> is the identity function of HOL.
\<close>

datatype status = pending | in_progress | completed | failed

datatype priority = low | medium | high

record Task =
  id_t :: string
  title :: string
  status :: status
  priority :: priority
  createdAt :: int
  updatedAt :: int

datatype event_type = TASK_CREATED | TASK_UPDATED | TASK_COMPLETED | TASK_FAILED

record DomainEvent =
  type_e :: event_type
  payload :: Task
  timestamp :: int
  aggregateId :: string

text \<open>\<^verbatim>\<open>throw new Error(msg)\<close>: the only kind of failure the code raises itself.\<close>

datatype error = Error string

section \<open>The environment: clock and random source\<close>

text \<open>
  \<^verbatim>\<open>Date.now()\<close> and \<^verbatim>\<open>Math.random()\<close> are the two inputs the code takes from its
  environment. Each evaluation consumes one reading: the \<open>k\<close>-th evaluation of
  \<^verbatim>\<open>Date.now()\<close> yields \<open>clock k\<close>, and the \<open>k\<close>-th evaluation of
  \<^verbatim>\<open>Math.random().toString(36).substr(2, 9)\<close> yields \<open>random k\<close>. Nothing is assumed of
  the readings; time that passes during an \<^verbatim>\<open>await\<close> or between two calls shows as a
  larger next reading.
\<close>

record env =
  clock :: "nat \<Rightarrow> int"
  ticks :: nat
  random :: "nat \<Rightarrow> string"
  draws :: nat

definition Date_now :: "env \<Rightarrow> int \<times> env" where
  "Date_now e = (clock e (ticks e), e\<lparr>ticks := Suc (ticks e)\<rparr>)"

definition Math_random_suffix :: "env \<Rightarrow> string \<times> env" where
  "Math_random_suffix e = (random e (draws e), e\<lparr>draws := Suc (draws e)\<rparr>)"

section \<open>Infrastructure layer: the circuit breaker\<close>

datatype breaker_state = CLOSED | OPEN | HALF_OPEN

record CircuitBreaker =
  failureCount :: int
  successCount :: int
  state :: breaker_state
  nextAttempt :: int
  threshold :: int
  timeout :: int
  successThreshold :: int

text \<open>The field initialisers and the constructor; \<^verbatim>\<open>nextAttempt\<close> reads the clock.\<close>

definition new_CircuitBreaker :: "int \<Rightarrow> int \<Rightarrow> int \<Rightarrow> env \<Rightarrow> CircuitBreaker \<times> env" where
  "new_CircuitBreaker th tmo sth e =
     (case Date_now e of (now, e1) \<Rightarrow>
        (\<lparr>failureCount = 0, successCount = 0, state = CLOSED, nextAttempt = now,
          threshold = th, timeout = tmo, successThreshold = sth\<rparr>, e1))"

definition default_CircuitBreaker :: "env \<Rightarrow> CircuitBreaker \<times> env" where
  "default_CircuitBreaker = new_CircuitBreaker 3 5000 2"

definition onSuccess :: "CircuitBreaker \<Rightarrow> CircuitBreaker" where
  "onSuccess cb =
     (let cb1 = cb\<lparr>failureCount := 0\<rparr> in
      if state cb1 = HALF_OPEN then
        (let cb2 = cb1\<lparr>successCount := successCount cb1 + 1\<rparr> in
         if successCount cb2 \<ge> successThreshold cb2
         then cb2\<lparr>state := CLOSED, successCount := 0\<rparr>
         else cb2)
      else cb1)"

definition onFailure :: "CircuitBreaker \<Rightarrow> env \<Rightarrow> CircuitBreaker \<times> env" where
  "onFailure cb e =
     (let cb1 = cb\<lparr>failureCount := failureCount cb + 1, successCount := 0\<rparr> in
      if failureCount cb1 \<ge> threshold cb1 then
        (case Date_now e of (now, e1) \<Rightarrow>
           (cb1\<lparr>state := OPEN, nextAttempt := now + timeout cb1\<rparr>, e1))
      else (cb1, e))"

text \<open>
  The wrapped operation \<^verbatim>\<open>fn\<close> is a closure: it reads the environment and changes the
  state \<open>'x\<close> it closes over, and it returns a value or throws. The closures of this
  repository never touch the breaker that runs them, so the breaker is kept apart from
  \<open>'x\<close>. \<open>attempt\<close> is the \<^verbatim>\<open>try\<close>/\<^verbatim>\<open>catch\<close> block of \<^verbatim>\<open>execute\<close>.
\<close>

type_synonym ('x, 'a) operation = "env \<times> 'x \<Rightarrow> (error + 'a) \<times> env \<times> 'x"

definition attempt ::
  "('x, 'a) operation \<Rightarrow> CircuitBreaker \<Rightarrow> env \<times> 'x \<Rightarrow> (error + 'a) \<times> CircuitBreaker \<times> env \<times> 'x" where
  "attempt fn cb w =
     (case fn w of
        (Inr result, e1, x1) \<Rightarrow> (Inr result, onSuccess cb, e1, x1)
      | (Inl err, e1, x1) \<Rightarrow>
          (case onFailure cb e1 of (cb1, e2) \<Rightarrow> (Inl err, cb1, e2, x1)))"

text \<open>
  \<^verbatim>\<open>execute\<close> is its two statements in sequence. \<open>gate\<close> is the first, the
  \<^verbatim>\<open>if (this.state === 'OPEN')\<close> block: it throws, or lets the call through, after
  moving an OPEN breaker whose cooldown has elapsed to HALF_OPEN. The clock is read only
  when the breaker is OPEN.
\<close>

definition gate :: "CircuitBreaker \<Rightarrow> env \<Rightarrow> (error + CircuitBreaker) \<times> env" where
  "gate cb e =
     (if state cb = OPEN then
        (case Date_now e of (now, e1) \<Rightarrow>
           if now < nextAttempt cb
           then (Inl (Error ''Circuit breaker is OPEN''), e1)
           else (Inr (cb\<lparr>state := HALF_OPEN\<rparr>), e1))
      else (Inr cb, e))"

definition execute ::
  "('x, 'a) operation \<Rightarrow> CircuitBreaker \<Rightarrow> env \<times> 'x \<Rightarrow> (error + 'a) \<times> CircuitBreaker \<times> env \<times> 'x" where
  "execute fn cb w =
     (case w of (e, x) \<Rightarrow>
        (case gate cb e of
           (Inl err, e1) \<Rightarrow> (Inl err, cb, e1, x)
         | (Inr cb1, e1) \<Rightarrow> attempt fn cb1 (e1, x)))"

definition getState :: "CircuitBreaker \<Rightarrow> breaker_state" where
  "getState cb = state cb"

text \<open>
  A caller that awaits one call after the other and catches every failure, as the
  presentation layer does, and the breaker it leaves behind.
\<close>

fun execute_all ::
  "('x, 'a) operation list \<Rightarrow> CircuitBreaker \<Rightarrow> env \<times> 'x \<Rightarrow> CircuitBreaker \<times> env \<times> 'x" where
  "execute_all [] cb w = (cb, w)"
| "execute_all (fn # fns) cb w =
     (case execute fn cb w of (r, cb1, w1) \<Rightarrow> execute_all fns cb1 w1)"

text \<open>
  The values \<^verbatim>\<open>this.state\<close> holds in the course of one call: none when the gate rejects
  the call, else the state the gate leaves and the state the outcome leaves. A breaker
  moves to OPEN wherever OPEN follows another state in the history of a run.
\<close>

definition call_states ::
  "('x, 'a) operation \<Rightarrow> CircuitBreaker \<Rightarrow> env \<times> 'x \<Rightarrow> breaker_state list" where
  "call_states fn cb w =
     (case w of (e, x) \<Rightarrow>
        (case gate cb e of
           (Inl err, e1) \<Rightarrow> []
         | (Inr cb1, e1) \<Rightarrow> [state cb1, state (fst (snd (attempt fn cb1 (e1, x))))]))"

fun state_history ::
  "('x, 'a) operation list \<Rightarrow> CircuitBreaker \<Rightarrow> env \<times> 'x \<Rightarrow> breaker_state list" where
  "state_history [] cb w = []"
| "state_history (fn # fns) cb w =
     call_states fn cb w @
     (case execute fn cb w of (r, cb1, w1) \<Rightarrow> state_history fns cb1 w1)"

fun openings :: "breaker_state list \<Rightarrow> nat" where
  "openings (s # t # ss) = (if s \<noteq> OPEN \<and> t = OPEN then 1 else 0) + openings (t # ss)"
| "openings ss = 0"

text \<open>
  The breakers a program can hold between two calls: a new one, and the one any call of
  \<^verbatim>\<open>execute\<close> leaves. The breaker sees of the operation only whether it failed.
\<close>

inductive reachable :: "CircuitBreaker \<Rightarrow> bool" where
  reachable_new: "reachable (fst (new_CircuitBreaker th tmo sth e))"
| reachable_execute:
    "reachable cb \<Longrightarrow> execute (fn :: (unit, unit) operation) cb w = (r, cb1, w1) \<Longrightarrow> reachable cb1"

section \<open>Application layer: the command services\<close>

text \<open>Decimal text of a number, as a template literal prints \<^verbatim>\<open>Date.now()\<close>.\<close>

function show_nat :: "nat \<Rightarrow> string" where
  "show_nat n =
     (if n < 10 then [char_of (48 + n)]
      else show_nat (n div 10) @ [char_of (48 + n mod 10)])"
  by pat_completeness auto
termination
  by (relation "measure (\<lambda>n. n)") auto

definition show_int :: "int \<Rightarrow> string" where
  "show_int i = (if i < 0 then CHR ''-'' # show_nat (nat (- i)) else show_nat (nat i))"

subsection \<open>TaskCommandService: tasks passed by value\<close>

record TaskCommandService =
  eventStore :: "DomainEvent list"
  circuitBreaker :: CircuitBreaker

definition new_TaskCommandService :: "env \<Rightarrow> TaskCommandService \<times> env" where
  "new_TaskCommandService e =
     (case default_CircuitBreaker e of (cb, e1) \<Rightarrow>
        (\<lparr>eventStore = [], circuitBreaker = cb\<rparr>, e1))"

definition publishEvent :: "DomainEvent \<Rightarrow> DomainEvent list \<Rightarrow> DomainEvent list" where
  "publishEvent event store = store @ [event]"

text \<open>
  The closures handed to \<^verbatim>\<open>execute\<close> close over the event store. The awaited
  \<^verbatim>\<open>setTimeout\<close> only lets time pass. Each \<^verbatim>\<open>Date.now()\<close> is a reading of its own, in
  the order of evaluation: id, \<^verbatim>\<open>createdAt\<close>, \<^verbatim>\<open>updatedAt\<close>, \<^verbatim>\<open>timestamp\<close>.
\<close>

definition createTask_body :: "string \<Rightarrow> priority \<Rightarrow> (DomainEvent list, Task) operation" where
  "createTask_body ttl prio w =
     (case w of (e, store) \<Rightarrow>
      case Date_now e of (t1, e1) \<Rightarrow>
      case Math_random_suffix e1 of (sfx, e2) \<Rightarrow>
      case Date_now e2 of (t2, e3) \<Rightarrow>
      case Date_now e3 of (t3, e4) \<Rightarrow>
      let task = \<lparr>id_t = ''task_'' @ show_int t1 @ ''_'' @ sfx, title = ttl, status = pending,
                  priority = prio, createdAt = t2, updatedAt = t3\<rparr> in
      case Date_now e4 of (t4, e5) \<Rightarrow>
        (Inr task, e5,
         publishEvent \<lparr>type_e = TASK_CREATED, payload = task, timestamp = t4,
                       aggregateId = id_t task\<rparr> store))"

definition createTask ::
  "string \<Rightarrow> priority \<Rightarrow> env \<times> TaskCommandService \<Rightarrow> (error + Task) \<times> env \<times> TaskCommandService" where
  "createTask ttl prio w =
     (case w of (e, svc) \<Rightarrow>
      case execute (createTask_body ttl prio) (circuitBreaker svc) (e, eventStore svc) of
        (r, cb1, e1, store1) \<Rightarrow> (r, e1, svc\<lparr>eventStore := store1, circuitBreaker := cb1\<rparr>))"

definition updateTaskStatus_body :: "Task \<Rightarrow> status \<Rightarrow> (DomainEvent list, Task) operation" where
  "updateTaskStatus_body task st w =
     (case w of (e, store) \<Rightarrow>
      case Date_now e of (t1, e1) \<Rightarrow>
      let updatedTask = task\<lparr>status := st, updatedAt := t1\<rparr> in
      case Date_now e1 of (t2, e2) \<Rightarrow>
        (Inr updatedTask, e2,
         publishEvent \<lparr>type_e = (if st = completed then TASK_COMPLETED else TASK_UPDATED),
                       payload = updatedTask, timestamp = t2, aggregateId = id_t task\<rparr> store))"

definition updateTaskStatus ::
  "Task \<Rightarrow> status \<Rightarrow> env \<times> TaskCommandService \<Rightarrow> (error + Task) \<times> env \<times> TaskCommandService" where
  "updateTaskStatus task st w =
     (case w of (e, svc) \<Rightarrow>
      case execute (updateTaskStatus_body task st) (circuitBreaker svc) (e, eventStore svc) of
        (r, cb1, e1, store1) \<Rightarrow> (r, e1, svc\<lparr>eventStore := store1, circuitBreaker := cb1\<rparr>))"

definition getEvents :: "TaskCommandService \<Rightarrow> DomainEvent list" where
  "getEvents svc = eventStore svc"

definition getCircuitBreakerState :: "TaskCommandService \<Rightarrow> breaker_state" where
  "getCircuitBreakerState svc = getState (circuitBreaker svc)"

subsection \<open>TaskService: tasks stored and looked up by id\<close>

text \<open>
  \<^verbatim>\<open>TaskService.ts\<close> imports its breaker from a module that is not among the sources; the
  class \<^verbatim>\<open>CircuitBreaker\<close> above stands for it. Its fields carry the suffix \<open>_ts\<close> to
  tell them from those of \<^verbatim>\<open>TaskCommandService\<close>. \<^verbatim>\<open>Array.prototype.find\<close> is
  \<^const>\<open>find\<close>: the first element that matches, if there is one.
\<close>

record TaskService =
  tasks :: "Task list"
  eventStore_ts :: "DomainEvent list"
  circuitBreaker_ts :: CircuitBreaker

definition new_TaskService :: "env \<Rightarrow> TaskService \<times> env" where
  "new_TaskService e =
     (case default_CircuitBreaker e of (cb, e1) \<Rightarrow>
        (\<lparr>tasks = [], eventStore_ts = [], circuitBreaker_ts = cb\<rparr>, e1))"

definition TaskService_createTask_body ::
  "string \<Rightarrow> priority \<Rightarrow> (Task list \<times> DomainEvent list, Task) operation" where
  "TaskService_createTask_body ttl prio w =
     (case w of (e, ts, store) \<Rightarrow>
      case Date_now e of (t1, e1) \<Rightarrow>
      case Math_random_suffix e1 of (sfx, e2) \<Rightarrow>
      case Date_now e2 of (t2, e3) \<Rightarrow>
      case Date_now e3 of (t3, e4) \<Rightarrow>
      let task = \<lparr>id_t = ''task_'' @ show_int t1 @ ''_'' @ sfx, title = ttl, status = pending,
                  priority = prio, createdAt = t2, updatedAt = t3\<rparr> in
      case Date_now e4 of (t4, e5) \<Rightarrow>
        (Inr task, e5, ts @ [task],
         publishEvent \<lparr>type_e = TASK_CREATED, payload = task, timestamp = t4,
                       aggregateId = id_t task\<rparr> store))"

definition TaskService_createTask ::
  "string \<Rightarrow> priority \<Rightarrow> env \<times> TaskService \<Rightarrow> (error + Task) \<times> env \<times> TaskService" where
  "TaskService_createTask ttl prio w =
     (case w of (e, svc) \<Rightarrow>
      case execute (TaskService_createTask_body ttl prio) (circuitBreaker_ts svc)
             (e, tasks svc, eventStore_ts svc) of
        (r, cb1, e1, ts1, store1) \<Rightarrow>
          (r, e1, svc\<lparr>tasks := ts1, eventStore_ts := store1, circuitBreaker_ts := cb1\<rparr>))"

definition TaskService_updateTaskStatus_body ::
  "string \<Rightarrow> status \<Rightarrow> (Task list \<times> DomainEvent list, Task) operation" where
  "TaskService_updateTaskStatus_body taskId st w =
     (case w of (e, ts, store) \<Rightarrow>
      case find (\<lambda>t. id_t t = taskId) ts of
        None \<Rightarrow> (Inl (Error ''Task not found''), e, ts, store)
      | Some task \<Rightarrow>
         (case Date_now e of (t1, e1) \<Rightarrow>
          let updatedTask = task\<lparr>status := st, updatedAt := t1\<rparr> in
          case Date_now e1 of (t2, e2) \<Rightarrow>
            (Inr updatedTask, e2,
             map (\<lambda>t. if id_t t = taskId then updatedTask else t) ts,
             publishEvent \<lparr>type_e = (if st = completed then TASK_COMPLETED else TASK_UPDATED),
                           payload = updatedTask, timestamp = t2, aggregateId = id_t task\<rparr>
               store)))"

definition TaskService_updateTaskStatus ::
  "string \<Rightarrow> status \<Rightarrow> env \<times> TaskService \<Rightarrow> (error + Task) \<times> env \<times> TaskService" where
  "TaskService_updateTaskStatus taskId st w =
     (case w of (e, svc) \<Rightarrow>
      case execute (TaskService_updateTaskStatus_body taskId st) (circuitBreaker_ts svc)
             (e, tasks svc, eventStore_ts svc) of
        (r, cb1, e1, ts1, store1) \<Rightarrow>
          (r, e1, svc\<lparr>tasks := ts1, eventStore_ts := store1, circuitBreaker_ts := cb1\<rparr>))"

subsection \<open>TaskQueryService\<close>

text \<open>
  \<^verbatim>\<open>Array.prototype.slice(start)\<close>: a negative \<open>start\<close> counts from the end and stops
  at the first element, any other \<open>start\<close> counts from the front and stops at the
  length. \<^verbatim>\<open>-limit\<close> is \<open>-0\<close> for \<open>limit = 0\<close>, which \<^verbatim>\<open>slice\<close> reads as 0.
\<close>

definition slice_from :: "int \<Rightarrow> 'a list \<Rightarrow> 'a list" where
  "slice_from start xs =
     (let len = int (length xs);
          k = (if start < 0 then max (len + start) 0 else min start len)
      in drop (nat k) xs)"

definition getRecentEvents :: "DomainEvent list \<Rightarrow> int \<Rightarrow> DomainEvent list" where
  "getRecentEvents events limit = rev (slice_from (- limit) events)"

definition getRecentEvents_default :: "DomainEvent list \<Rightarrow> DomainEvent list" where
  "getRecentEvents_default events = getRecentEvents events 5"

section \<open>Concrete environments and operations\<close>

text \<open>A clock that advances ten seconds between two readings, and one that stands still.\<close>

definition slow_env :: env where
  "slow_env = \<lparr>clock = (\<lambda>k. 10000 * int k), ticks = 0, random = (\<lambda>k. ''abc''), draws = 0\<rparr>"

definition frozen_env :: env where
  "frozen_env = \<lparr>clock = (\<lambda>k. 1000), ticks = 0, random = (\<lambda>k. ''abc''), draws = 0\<rparr>"

text \<open>A clock that advances one millisecond between two readings.\<close>

definition tick_env :: env where
  "tick_env = \<lparr>clock = (\<lambda>k. 1000 + int k), ticks = 0, random = (\<lambda>k. ''abc''), draws = 0\<rparr>"

text \<open>Operations that count their invocations in the state they close over.\<close>

definition failing_op :: "(nat, unit) operation" where
  "failing_op w = (case w of (e, n) \<Rightarrow> (Inl (Error ''boom''), e, Suc n))"

definition succeeding_op :: "(nat, unit) operation" where
  "succeeding_op w = (case w of (e, n) \<Rightarrow> (Inr (), e, Suc n))"

text \<open>
  A run on a breaker with the default configuration under the slow clock: the
  constructor takes reading 0, so the third failure in a row opens the breaker at
  reading 10000 until 15000, and the next call arrives at reading 20000.
\<close>

definition slow_run :: "(nat, unit) operation list \<Rightarrow> CircuitBreaker \<times> env \<times> nat" where
  "slow_run fns =
     (case default_CircuitBreaker slow_env of (cb, e) \<Rightarrow> execute_all fns cb (e, 0))"

text \<open>A task that no service has created, and two events about it.\<close>

definition ghost_task :: Task where
  "ghost_task = \<lparr>id_t = ''ghost'', title = ''never created'', status = pending,
                 priority = high, createdAt = 1, updatedAt = 1\<rparr>"

definition event_a :: DomainEvent where
  "event_a = \<lparr>type_e = TASK_UPDATED, payload = ghost_task, timestamp = 2,
              aggregateId = ''ghost''\<rparr>"

definition event_b :: DomainEvent where
  "event_b = \<lparr>type_e = TASK_COMPLETED, payload = ghost_task\<lparr>status := completed\<rparr>,
              timestamp = 3, aggregateId = ''ghost''\<rparr>"

text \<open>
  Services as their constructors leave them, under the clock that stands still, and a
  \<^verbatim>\<open>TaskService\<close> that has created one task.
\<close>

definition fresh_command :: "env \<times> TaskCommandService" where
  "fresh_command = (case new_TaskCommandService frozen_env of (svc, e) \<Rightarrow> (e, svc))"

definition fresh_service :: "env \<times> TaskService" where
  "fresh_service = (case new_TaskService frozen_env of (svc, e) \<Rightarrow> (e, svc))"

definition stocked_service :: "env \<times> TaskService" where
  "stocked_service =
     (case TaskService_createTask ''write'' high fresh_service of (r, e, svc) \<Rightarrow> (e, svc))"

definition stocked_id :: string where
  "stocked_id = ''task_'' @ show_int 1000 @ ''_abc''"

section \<open>Properties of an event log\<close>

text \<open>
  What a call may do to the log: a call that returns a task has appended one event,
  which carries that task and the task's id; a call that fails has appended nothing.
\<close>

definition one_event_or_none ::
  "DomainEvent list \<Rightarrow> error + Task \<Rightarrow> DomainEvent list \<Rightarrow> bool" where
  "one_event_or_none before r after =
     (case r of
        Inr t \<Rightarrow> after = before @ [last after] \<and> payload (last after) = t \<and>
                 aggregateId (last after) = id_t (payload (last after))
      | Inl err \<Rightarrow> after = before)"

text \<open>The ids for which the log holds a \<^verbatim>\<open>TASK_CREATED\<close> event.\<close>

definition created_ids :: "DomainEvent list \<Rightarrow> string list" where
  "created_ids store = map aggregateId (filter (\<lambda>ev. type_e ev = TASK_CREATED) store)"

section \<open>The gate and the outcome of a call\<close>

lemmas breaker_defs =
  default_CircuitBreaker_def new_CircuitBreaker_def execute_def gate_def attempt_def
  onSuccess_def onFailure_def Date_now_def

lemmas run_defs = slow_run_def slow_env_def failing_op_def succeeding_op_def breaker_defs

lemma gate_cases:
  obtains (rejected) "state cb = OPEN" "clock e (ticks e) < nextAttempt cb"
      "gate cb e = (Inl (Error ''Circuit breaker is OPEN''), e\<lparr>ticks := Suc (ticks e)\<rparr>)"
  | (probe) "state cb = OPEN" "nextAttempt cb \<le> clock e (ticks e)"
      "gate cb e = (Inr (cb\<lparr>state := HALF_OPEN\<rparr>), e\<lparr>ticks := Suc (ticks e)\<rparr>)"
  | (pass) "state cb \<noteq> OPEN" "gate cb e = (Inr cb, e)"
  by (cases "state cb = OPEN"; cases "clock e (ticks e) < nextAttempt cb")
     (auto simp: gate_def Date_now_def)

lemma gate_not_open: "gate cb e = (Inr cb1, e1) \<Longrightarrow> state cb1 \<noteq> OPEN"
  by (auto simp: gate_def Date_now_def split: if_splits)

lemma gate_clock: "clock (snd (gate cb e)) = clock e"
  by (simp add: gate_def Date_now_def)

lemma execute_rejected:
  "gate cb e = (Inl err, e1) \<Longrightarrow> execute fn cb (e, x) = (Inl err, cb, e1, x)"
  by (simp add: execute_def)

lemma execute_admitted_ok:
  "gate cb e = (Inr cb1, e1) \<Longrightarrow> fn (e1, x) = (Inr v, e2, x2) \<Longrightarrow>
   execute fn cb (e, x) = (Inr v, onSuccess cb1, e2, x2)"
  by (simp add: execute_def attempt_def)

lemma execute_admitted_fail:
  "gate cb e = (Inr cb1, e1) \<Longrightarrow> fn (e1, x) = (Inl err, e2, x2) \<Longrightarrow>
   execute fn cb (e, x) = (Inl err, fst (onFailure cb1 e2), snd (onFailure cb1 e2), x2)"
  by (simp add: execute_def attempt_def split: prod.splits)

lemma onFailure_successCount: "successCount (fst (onFailure cb e)) = 0"
  by (simp add: onFailure_def Date_now_def Let_def)

lemma onFailure_clock: "clock (snd (onFailure cb e)) = clock e"
  by (simp add: onFailure_def Date_now_def Let_def)

lemma onSuccess_not_open: "state cb \<noteq> OPEN \<Longrightarrow> state (onSuccess cb) \<noteq> OPEN"
  by (simp add: onSuccess_def Let_def)

text \<open>
  A failure in HALF_OPEN goes through the same threshold test as one in CLOSED: the
  breaker reopens only if the incremented \<open>failureCount\<close> has reached the threshold.
\<close>

lemma half_open_failure:
  assumes "state cb = HALF_OPEN" and "fn (e, x) = (Inl err, e2, x2)"
  shows "state (fst (snd (execute fn cb (e, x)))) =
           (if threshold cb \<le> failureCount cb + 1 then OPEN else HALF_OPEN)"
  using assms
  by (simp add: execute_def gate_def attempt_def onFailure_def Date_now_def Let_def
      split: prod.splits)

section \<open>Rejection while the breaker is open\<close>

text \<open>
  Claim C5. A call of \<open>execute\<close> on a breaker that is OPEN, at a clock reading below
  \<open>nextAttempt\<close>, fails with the error "Circuit breaker is OPEN"; whatever the wrapped
  operation is, it is not run (the state it closes over is returned as it was), and
  the breaker is returned with every field unchanged. The only effect is the one
  reading of the clock.
\<close>

theorem execute_open_rejects:
  assumes "state cb = OPEN" and "clock e (ticks e) < nextAttempt cb"
  shows "execute fn cb (e, x) =
           (Inl (Error ''Circuit breaker is OPEN''), cb, e\<lparr>ticks := Suc (ticks e)\<rparr>, x)"
  using assms by (simp add: execute_def gate_def Date_now_def)

theorem execute_open_rejects_witness:
  "execute succeeding_op
     \<lparr>failureCount = 3, successCount = 0, state = OPEN, nextAttempt = 6000,
      threshold = 3, timeout = 5000, successThreshold = 2\<rparr> (frozen_env, 0) =
   (Inl (Error ''Circuit breaker is OPEN''),
    \<lparr>failureCount = 3, successCount = 0, state = OPEN, nextAttempt = 6000,
      threshold = 3, timeout = 5000, successThreshold = 2\<rparr>,
    frozen_env\<lparr>ticks := Suc (ticks frozen_env)\<rparr>, 0)"
  by (rule execute_open_rejects) (simp_all add: frozen_env_def)

section \<open>A failure in HALF_OPEN after a success\<close>

text \<open>
  Claim C1 says that in HALF_OPEN a single failing call reopens the breaker whatever
  successes came before. The run below evaluates the code on a breaker with the default
  configuration (thresholds 3 and 2, timeout 5000): three failures open it, a success
  after the cooldown leaves it HALF_OPEN with \<open>failureCount\<close> reset to 0 and
  \<open>successCount\<close> 1, and the failure that follows only counts to 1, below the
  threshold: the breaker stays HALF_OPEN and \<open>nextAttempt\<close> keeps its old value.
\<close>

theorem half_open_failure_after_success_stays_half_open:
  "fst (slow_run [failing_op, failing_op, failing_op, succeeding_op]) =
     \<lparr>failureCount = 0, successCount = 1, state = HALF_OPEN, nextAttempt = 15000,
      threshold = 3, timeout = 5000, successThreshold = 2\<rparr>
   \<and> fst (slow_run [failing_op, failing_op, failing_op, succeeding_op, failing_op]) =
     \<lparr>failureCount = 1, successCount = 0, state = HALF_OPEN, nextAttempt = 15000,
      threshold = 3, timeout = 5000, successThreshold = 2\<rparr>"
  by (simp add: run_defs)

section \<open>Every HALF_OPEN episode starts with no successes counted\<close>

lemma attempt_open_zero:
  assumes "state cb \<noteq> OPEN" and "attempt fn cb w = (r, cb1, w1)" and "state cb1 = OPEN"
  shows "successCount cb1 = 0"
proof (cases "fn w")
  case (fields res e1 x1)
  show ?thesis
  proof (cases res)
    case (Inl err)
    with fields assms(2) have "cb1 = fst (onFailure cb e1)"
      by (auto simp: attempt_def split: prod.splits)
    then show ?thesis by (simp add: onFailure_successCount)
  next
    case (Inr v)
    with fields assms(2) have "cb1 = onSuccess cb"
      by (auto simp: attempt_def)
    with assms(1,3) onSuccess_not_open show ?thesis by blast
  qed
qed

lemma execute_open_zero:
  assumes "state cb = OPEN \<longrightarrow> successCount cb = 0" and "execute fn cb w = (r, cb1, w1)"
  shows "state cb1 = OPEN \<longrightarrow> successCount cb1 = 0"
proof (cases w)
  case (Pair e x)
  show ?thesis
  proof (cases "gate cb e")
    case g: (Pair res e1)
    show ?thesis
    proof (cases res)
      case (Inl err)
      with g Pair assms(2) have "cb1 = cb" by (simp add: execute_def)
      with assms(1) show ?thesis by simp
    next
      case (Inr cb2)
      with g Pair assms(2) have a: "attempt fn cb2 (e1, x) = (r, cb1, w1)"
        by (simp add: execute_def)
      from g Inr have "state cb2 \<noteq> OPEN" by (simp add: gate_not_open)
      with a show ?thesis using attempt_open_zero by blast
    qed
  qed
qed

lemma reachable_open_zero: "reachable cb \<Longrightarrow> state cb = OPEN \<longrightarrow> successCount cb = 0"
proof (induction rule: reachable.induct)
  case (reachable_new th tmo sth e)
  show ?case by (simp add: new_CircuitBreaker_def Date_now_def)
next
  case (reachable_execute cb fn w r cb1 w1)
  then show ?case using execute_open_zero by blast
qed

text \<open>
  \<open>reachable\<close> is stated with operations of one type; a call with an operation of any
  other type leaves a reachable breaker too, since an operation of the fixed type with
  the same outcome drives the breaker the same way.
\<close>

lemma reachable_any:
  fixes fn :: "('x, 'a) operation"
  assumes "reachable cb" and "execute fn cb w = (r, cb1, w1)"
  shows "reachable cb1"
proof (cases w)
  case (Pair e x)
  define fn' :: "(unit, unit) operation" where
    "fn' = (\<lambda>v. case fn (fst v, x) of
                  (res, e2, x2) \<Rightarrow> (case res of Inl err \<Rightarrow> Inl err | Inr a \<Rightarrow> Inr (), e2, ()))"
  have "fst (snd (execute fn' cb (e, ()))) = cb1"
    using assms(2) Pair
    by (auto simp: execute_def attempt_def fn'_def split: prod.splits sum.splits)
  then obtain r' w' where "execute fn' cb (e, ()) = (r', cb1, w')"
    by (metis prod.collapse)
  with assms(1) show ?thesis by (rule reachable_execute)
qed

lemma reachable_execute_all: "reachable cb \<Longrightarrow> reachable (fst (execute_all fns cb w))"
proof (induction fns arbitrary: cb w)
  case Nil
  then show ?case by simp
next
  case (Cons fn fns)
  obtain r cb1 w1 where ex: "execute fn cb w = (r, cb1, w1)" by (metis prod_cases3)
  with Cons.prems have "reachable cb1" by (rule reachable_any)
  then have "reachable (fst (execute_all fns cb1 w1))" by (rule Cons.IH)
  with ex show ?case by simp
qed

text \<open>
  Claim C9. Whenever the gate moves a breaker to HALF_OPEN, \<open>successCount\<close> is 0. The
  gate itself does not reset the counter; it moves only OPEN breakers, and a breaker
  that a program can hold in state OPEN has \<open>successCount = 0\<close>, because the one
  assignment of OPEN, in \<^verbatim>\<open>onFailure\<close>, comes after the counter is zeroed and no
  call changes an OPEN breaker before the gate lets one through.
\<close>

theorem half_open_starts_at_zero:
  assumes "reachable cb" and "state cb \<noteq> HALF_OPEN"
    and "gate cb e = (Inr cb1, e1)" and "state cb1 = HALF_OPEN"
  shows "state cb = OPEN \<and> successCount cb1 = 0"
proof -
  from assms(2,3,4) have o: "state cb = OPEN" and c: "cb1 = cb\<lparr>state := HALF_OPEN\<rparr>"
    by (auto simp: gate_def Date_now_def split: if_splits)
  from assms(1) o have "successCount cb = 0" using reachable_open_zero by blast
  with o c show ?thesis by simp
qed

theorem half_open_starts_at_zero_witness:
  "state (fst (slow_run [failing_op, failing_op, failing_op])) = OPEN
   \<and> successCount ((fst (slow_run [failing_op, failing_op, failing_op]))\<lparr>state := HALF_OPEN\<rparr>) = 0"
proof -
  let ?cb = "fst (slow_run [failing_op, failing_op, failing_op])"
  let ?e = "fst (snd (slow_run [failing_op, failing_op, failing_op]))"
  have v: "?cb = \<lparr>failureCount = 3, successCount = 0, state = OPEN, nextAttempt = 15000,
                  threshold = 3, timeout = 5000, successThreshold = 2\<rparr>"
    by (simp add: run_defs)
  have r: "reachable ?cb"
    unfolding slow_run_def default_CircuitBreaker_def
    by (simp only: split_beta) (rule reachable_execute_all, rule reachable_new)
  have n: "state ?cb \<noteq> HALF_OPEN" by (simp add: v)
  have g: "gate ?cb ?e = (Inr (?cb\<lparr>state := HALF_OPEN\<rparr>), ?e\<lparr>ticks := Suc (ticks ?e)\<rparr>)"
    by (simp add: run_defs)
  have h: "state (?cb\<lparr>state := HALF_OPEN\<rparr>) = HALF_OPEN" by simp
  show ?thesis by (rule half_open_starts_at_zero [OF r n g h])
qed

section \<open>Consecutive failures from the initial state\<close>

lemma execute_all_append:
  "execute_all (fs @ gs) cb w = (case execute_all fs cb w of (cb1, w1) \<Rightarrow> execute_all gs cb1 w1)"
  by (induction fs arbitrary: cb w) (auto split: prod.splits)

lemma state_history_append:
  "state_history (fs @ gs) cb w =
     state_history fs cb w @ (case execute_all fs cb w of (cb1, w1) \<Rightarrow> state_history gs cb1 w1)"
  by (induction fs arbitrary: cb w) (auto split: prod.splits)

lemma failing_call:
  assumes "state cb \<noteq> OPEN" and "fn (e, x) = (Inl err, e2, x2)"
  shows "execute fn cb (e, x) = (Inl err, fst (onFailure cb e2), snd (onFailure cb e2), x2)"
    and "call_states fn cb (e, x) = [state cb, state (fst (onFailure cb e2))]"
  using assms by (simp_all add: execute_def call_states_def gate_def attempt_def split: prod.splits)

lemma failing_result:
  assumes "isl (fst (fn w))"
  obtains err e2 x2 where "fn w = (Inl err, e2, x2)"
  using assms by (cases "fn w"; cases "fst (fn w)") auto

lemma closed_phase:
  fixes fn :: "('x, 'a) operation"
  assumes fails: "\<And>w. isl (fst (fn w))"
  shows "state cb = CLOSED \<Longrightarrow> failureCount cb + int k < threshold cb \<Longrightarrow>
     (case execute_all (replicate k fn) cb (e, x) of (cb1, e1, x1) \<Rightarrow>
        state cb1 = CLOSED \<and> failureCount cb1 = failureCount cb + int k \<and>
        threshold cb1 = threshold cb \<and> timeout cb1 = timeout cb)
     \<and> state_history (replicate k fn) cb (e, x) = replicate (2 * k) CLOSED"
proof (induction k arbitrary: cb e x)
  case 0
  then show ?case by simp
next
  case (Suc k)
  obtain err e2 x2 where f: "fn (e, x) = (Inl err, e2, x2)"
    using fails [of "(e, x)"] by (rule failing_result)
  define cb' where "cb' = cb\<lparr>failureCount := failureCount cb + 1, successCount := 0\<rparr>"
  from Suc.prems have low: "failureCount cb + 1 < threshold cb" by simp
  then have onf: "onFailure cb e2 = (cb', e2)"
    by (simp add: onFailure_def Let_def cb'_def)
  from Suc.prems(1) have no: "state cb \<noteq> OPEN" by simp
  have ex: "execute fn cb (e, x) = (Inl err, cb', e2, x2)"
    using failing_call(1) [where fn = fn, OF no f] onf by simp
  have cs: "call_states fn cb (e, x) = [CLOSED, CLOSED]"
    using failing_call(2) [where fn = fn, OF no f] onf Suc.prems(1) by (simp add: cb'_def)
  have s': "state cb' = CLOSED" using Suc.prems(1) by (simp add: cb'_def)
  have f': "failureCount cb' + int k < threshold cb'" using Suc.prems(2) by (simp add: cb'_def)
  note ih = Suc.IH [OF s' f', of e2 x2]
  show ?case using ih ex cs
    by (auto simp: cb'_def split: prod.splits)
qed

lemma tripping_call:
  assumes "state cb = CLOSED" and "threshold cb \<le> failureCount cb + 1"
    and "fn (e, x) = (Inl err, e2, x2)"
  shows "execute fn cb (e, x) =
           (Inl err,
            cb\<lparr>failureCount := failureCount cb + 1, successCount := 0, state := OPEN,
               nextAttempt := clock e2 (ticks e2) + timeout cb\<rparr>,
            e2\<lparr>ticks := Suc (ticks e2)\<rparr>, x2)"
    and "call_states fn cb (e, x) = [CLOSED, OPEN]"
proof -
  from assms(1) have no: "state cb \<noteq> OPEN" by simp
  have onf: "onFailure cb e2 =
      (cb\<lparr>failureCount := failureCount cb + 1, successCount := 0, state := OPEN,
          nextAttempt := clock e2 (ticks e2) + timeout cb\<rparr>, e2\<lparr>ticks := Suc (ticks e2)\<rparr>)"
    using assms(2) by (simp add: onFailure_def Let_def Date_now_def)
  show "execute fn cb (e, x) =
           (Inl err,
            cb\<lparr>failureCount := failureCount cb + 1, successCount := 0, state := OPEN,
               nextAttempt := clock e2 (ticks e2) + timeout cb\<rparr>,
            e2\<lparr>ticks := Suc (ticks e2)\<rparr>, x2)"
    using failing_call(1) [where fn = fn, OF no assms(3)] onf by simp
  show "call_states fn cb (e, x) = [CLOSED, OPEN]"
    using failing_call(2) [where fn = fn, OF no assms(3)] onf assms(1) by simp
qed

lemma openings_after_open:
  "openings (OPEN # concat (replicate m [HALF_OPEN, OPEN])) = m"
  by (induction m) auto

lemma openings_run:
  "openings (replicate (Suc k) CLOSED @ [OPEN] @ concat (replicate m [HALF_OPEN, OPEN])) = Suc m"
  by (induction k) (auto simp: openings_after_open)

lemma rejected_calls:
  assumes "state cb = OPEN" and "\<forall>i<n. clock e (ticks e + i) < nextAttempt cb"
  shows "execute_all (replicate n fn) cb (e, x) = (cb, e\<lparr>ticks := ticks e + n\<rparr>, x)
       \<and> state_history (replicate n fn) cb (e, x) = []"
  using assms
proof (induction n arbitrary: e)
  case 0
  then show ?case by simp
next
  case (Suc n)
  from Suc.prems(2) have first: "clock e (ticks e) < nextAttempt cb"
    and rest: "\<forall>i<n. clock e (ticks e + Suc i) < nextAttempt cb"
    by (simp_all add: All_less_Suc2)
  have g: "gate cb e = (Inl (Error ''Circuit breaker is OPEN''), e\<lparr>ticks := Suc (ticks e)\<rparr>)"
    using Suc.prems(1) first by (simp add: gate_def Date_now_def)
  have c: "\<forall>i<n. clock (e\<lparr>ticks := Suc (ticks e)\<rparr>) (ticks (e\<lparr>ticks := Suc (ticks e)\<rparr>) + i)
             < nextAttempt cb"
    using rest by simp
  note ih = Suc.IH [OF Suc.prems(1) c]
  show ?case using g ih by (simp add: execute_def call_states_def)
qed

lemma late_failing_call:
  assumes "state cb = OPEN" and "threshold cb \<le> failureCount cb + 1"
    and "nextAttempt cb \<le> clock e (ticks e)"
    and "fn (e\<lparr>ticks := Suc (ticks e)\<rparr>, x) = (Inl err, e2, x2)"
  shows "execute fn cb (e, x) =
           (Inl err,
            cb\<lparr>failureCount := failureCount cb + 1, successCount := 0, state := OPEN,
               nextAttempt := clock e2 (ticks e2) + timeout cb\<rparr>,
            e2\<lparr>ticks := Suc (ticks e2)\<rparr>, x2)"
    and "call_states fn cb (e, x) = [HALF_OPEN, OPEN]"
  using assms
  by (simp_all add: execute_def call_states_def gate_def attempt_def onFailure_def
      Date_now_def Let_def)

lemma open_phase:
  fixes fn :: "('x, 'a) operation"
  assumes fails: "\<And>w. isl (fst (fn w))"
  shows "state cb = OPEN \<Longrightarrow> threshold cb \<le> failureCount cb \<Longrightarrow>
     (case execute_all (replicate n fn) cb (e, x) of (cb1, e1, x1) \<Rightarrow>
        state cb1 = OPEN \<and> threshold cb1 = threshold cb \<and> timeout cb1 = timeout cb \<and>
        threshold cb1 \<le> failureCount cb1)
     \<and> (\<exists>m. state_history (replicate n fn) cb (e, x) = concat (replicate m [HALF_OPEN, OPEN])
            \<and> (m = 0 \<longleftrightarrow> (\<forall>i<n. clock e (ticks e + i) < nextAttempt cb)))"
proof (induction n arbitrary: cb e x)
  case 0
  then show ?case by simp
next
  case (Suc n)
  let ?e' = "e\<lparr>ticks := Suc (ticks e)\<rparr>"
  show ?case
  proof (cases "clock e (ticks e) < nextAttempt cb")
    case True
    have g: "gate cb e = (Inl (Error ''Circuit breaker is OPEN''), ?e')"
      using Suc.prems(1) True by (simp add: gate_def Date_now_def)
    have ex: "execute fn cb (e, x) = (Inl (Error ''Circuit breaker is OPEN''), cb, ?e', x)"
      using g by (simp add: execute_def)
    have cs: "call_states fn cb (e, x) = []" using g by (simp add: call_states_def)
    note ih = Suc.IH [OF Suc.prems, of ?e' x]
    then obtain m where m: "state_history (replicate n fn) cb (?e', x) =
        concat (replicate m [HALF_OPEN, OPEN])"
      "m = 0 \<longleftrightarrow> (\<forall>i<n. clock e (ticks e + Suc i) < nextAttempt cb)"
      by auto
    have "m = 0 \<longleftrightarrow> (\<forall>i<Suc n. clock e (ticks e + i) < nextAttempt cb)"
      using m(2) True by (simp add: All_less_Suc2)
    with m(1) have "\<exists>m. state_history (replicate (Suc n) fn) cb (e, x) =
          concat (replicate m [HALF_OPEN, OPEN])
        \<and> (m = 0 \<longleftrightarrow> (\<forall>i<Suc n. clock e (ticks e + i) < nextAttempt cb))"
      using ex cs by auto
    moreover have "case execute_all (replicate (Suc n) fn) cb (e, x) of (cb1, e1, x1) \<Rightarrow>
        state cb1 = OPEN \<and> threshold cb1 = threshold cb \<and> timeout cb1 = timeout cb \<and>
        threshold cb1 \<le> failureCount cb1"
      using ih ex by simp
    ultimately show ?thesis by blast
  next
    case False
    obtain err e2 x2 where f: "fn (?e', x) = (Inl err, e2, x2)"
      using fails [of "(?e', x)"] by (rule failing_result)
    define cb' where "cb' = cb\<lparr>failureCount := failureCount cb + 1, successCount := 0,
        state := OPEN, nextAttempt := clock e2 (ticks e2) + timeout cb\<rparr>"
    from False have late: "nextAttempt cb \<le> clock e (ticks e)" by simp
    from Suc.prems(2) have reach: "threshold cb \<le> failureCount cb + 1" by simp
    have ex: "execute fn cb (e, x) = (Inl err, cb', e2\<lparr>ticks := Suc (ticks e2)\<rparr>, x2)"
      unfolding cb'_def
      by (rule late_failing_call(1) [where fn = fn, OF Suc.prems(1) reach late f])
    have cs: "call_states fn cb (e, x) = [HALF_OPEN, OPEN]"
      by (rule late_failing_call(2) [where fn = fn, OF Suc.prems(1) reach late f])
    have s': "state cb' = OPEN" by (simp add: cb'_def)
    have t': "threshold cb' \<le> failureCount cb'" using Suc.prems(2) by (simp add: cb'_def)
    note ih = Suc.IH [OF s' t', of "e2\<lparr>ticks := Suc (ticks e2)\<rparr>" x2]
    then obtain m where m: "state_history (replicate n fn) cb' (e2\<lparr>ticks := Suc (ticks e2)\<rparr>, x2) =
        concat (replicate m [HALF_OPEN, OPEN])"
      by auto
    have h: "state_history (replicate (Suc n) fn) cb (e, x) =
        concat (replicate (Suc m) [HALF_OPEN, OPEN])"
      using ex cs m by simp
    have "\<not> (\<forall>i<Suc n. clock e (ticks e + i) < nextAttempt cb)"
      using False by (auto simp: All_less_Suc2)
    with h have "\<exists>m. state_history (replicate (Suc n) fn) cb (e, x) =
          concat (replicate m [HALF_OPEN, OPEN])
        \<and> (m = 0 \<longleftrightarrow> (\<forall>i<Suc n. clock e (ticks e + i) < nextAttempt cb))"
      by blast
    moreover have "case execute_all (replicate (Suc n) fn) cb (e, x) of (cb1, e1, x1) \<Rightarrow>
        state cb1 = OPEN \<and> threshold cb1 = threshold cb \<and> timeout cb1 = timeout cb \<and>
        threshold cb1 \<le> failureCount cb1"
      using ih ex by (simp add: cb'_def)
    ultimately show ?thesis by blast
  qed
qed

text \<open>
  Claim C6 says that in every run of \<open>N \<ge> failureThreshold\<close> consecutive failing calls
  from the initial state the breaker moves to OPEN exactly once. Under the slow clock
  the fourth failing call on a breaker with the default configuration comes after the
  cooldown: the gate lets it through in HALF_OPEN, it fails, and the breaker moves to
  OPEN a second time, with a new \<open>nextAttempt\<close>.
\<close>

theorem consecutive_failures_open_once_counterexample:
  "state_history (replicate 4 failing_op) (fst (default_CircuitBreaker slow_env))
     (snd (default_CircuitBreaker slow_env), 0) =
     [CLOSED, CLOSED, CLOSED, CLOSED, CLOSED, OPEN, HALF_OPEN, OPEN]
   \<and> openings (CLOSED # state_history (replicate 4 failing_op)
        (fst (default_CircuitBreaker slow_env)) (snd (default_CircuitBreaker slow_env), 0)) = 2
   \<and> nextAttempt (fst (slow_run (replicate 3 failing_op))) = 15000
   \<and> nextAttempt (fst (slow_run (replicate 4 failing_op))) = 35000"
  by (simp add: numeral_eq_Suc call_states_def run_defs)

text \<open>
  Claim C6, amended. Take a run of \<open>N \<ge> failureThreshold \<ge> 1\<close> consecutive calls with a
  failing operation, from the breaker as its constructor leaves it. The breaker is
  CLOSED after each of the first \<open>failureThreshold - 1\<close> calls and moves to OPEN at call
  number \<open>failureThreshold\<close>, where \<open>failureCount\<close> first reaches the threshold, with
  \<open>nextAttempt = now + openTimeout\<close>, \<open>now\<close> being the reading of the clock taken when
  that call's operation has failed. It moves to OPEN exactly once in the run if and
  only if every later call of the run arrives before \<open>nextAttempt\<close>, that is, the
  reading the gate takes for it is below \<open>nextAttempt\<close>; those calls are rejected and
  change nothing. After any number of calls from the threshold on the breaker is OPEN,
  and a further failing call that arrives at or after \<open>nextAttempt\<close> is let through in
  HALF_OPEN and reopens the breaker with a fresh \<open>nextAttempt = now + openTimeout\<close>.
\<close>

theorem consecutive_failures_open_once:
  fixes fn :: "('x, 'a) operation"
  assumes new: "new_CircuitBreaker th tmo sth e0 = (cb, e)"
    and th: "1 \<le> th"
    and fails: "\<And>w. isl (fst (fn w))"
    and N: "nat th \<le> N"
  shows "(\<forall>k < nat th. state (fst (execute_all (replicate k fn) cb (e, x))) = CLOSED)
    \<and> state_history (replicate (nat th) fn) cb (e, x) = replicate (2 * nat th - 1) CLOSED @ [OPEN]
    \<and> (case execute_all (replicate (nat th) fn) cb (e, x) of
         (cbT, eT, xT) \<Rightarrow>
           state cbT = OPEN
           \<and> nextAttempt cbT =
               (let e2 = fst (snd (fn (snd (execute_all (replicate (nat th - 1) fn) cb (e, x)))))
                in clock e2 (ticks e2) + tmo)
           \<and> ((\<forall>i < N - nat th. clock eT (ticks eT + i) < nextAttempt cbT) \<longrightarrow>
                 execute_all (replicate N fn) cb (e, x) =
                   (cbT, eT\<lparr>ticks := ticks eT + (N - nat th)\<rparr>, xT)
                 \<and> state_history (replicate N fn) cb (e, x) =
                     replicate (2 * nat th - 1) CLOSED @ [OPEN])
           \<and> (openings (CLOSED # state_history (replicate N fn) cb (e, x)) = 1
                \<longleftrightarrow> (\<forall>i < N - nat th. clock eT (ticks eT + i) < nextAttempt cbT)))
    \<and> (\<forall>n \<ge> nat th.
         case execute_all (replicate n fn) cb (e, x) of
           (cbn, en, xn) \<Rightarrow>
             state cbn = OPEN
             \<and> (nextAttempt cbn \<le> clock en (ticks en) \<longrightarrow>
                  call_states fn cbn (en, xn) = [HALF_OPEN, OPEN]
                  \<and> state (fst (snd (execute fn cbn (en, xn)))) = OPEN
                  \<and> nextAttempt (fst (snd (execute fn cbn (en, xn)))) =
                      (let e' = fst (snd (fn (en\<lparr>ticks := Suc (ticks en)\<rparr>, xn)))
                       in clock e' (ticks e') + tmo)))"
proof -
  from new have cb: "state cb = CLOSED" "failureCount cb = 0" "threshold cb = th" "timeout cb = tmo"
    by (auto simp: new_CircuitBreaker_def Date_now_def)
  define m where "m = nat th - 1"
  from th have m: "nat th = Suc m" "int m = th - 1" by (simp_all add: m_def)
  have closed: "state cb1 = CLOSED \<and> failureCount cb1 = int k \<and> threshold cb1 = th \<and> timeout cb1 = tmo"
    if "k < nat th" and "execute_all (replicate k fn) cb (e, x) = (cb1, w1)" for k cb1 w1
  proof -
    from that(1) have "failureCount cb + int k < threshold cb" using cb by simp
    from closed_phase [of fn cb k e x, OF fails cb(1) this] that(2) cb show ?thesis
      by (auto split: prod.splits)
  qed
  have part1: "\<forall>k < nat th. state (fst (execute_all (replicate k fn) cb (e, x))) = CLOSED"
  proof (intro allI impI)
    fix k assume "k < nat th"
    then show "state (fst (execute_all (replicate k fn) cb (e, x))) = CLOSED"
      using closed [of k] by (metis prod.collapse)
  qed
  obtain cb1 e1 x1 where run1: "execute_all (replicate m fn) cb (e, x) = (cb1, e1, x1)"
    by (metis prod_cases3)
  have c1: "state cb1 = CLOSED" "failureCount cb1 = int m" "threshold cb1 = th" "timeout cb1 = tmo"
    using closed [of m cb1 "(e1, x1)"] run1 m by simp_all
  have h1: "state_history (replicate m fn) cb (e, x) = replicate (2 * m) CLOSED"
    using closed_phase [of fn cb m e x, OF fails cb(1)] cb m by simp
  obtain err e2 x2 where f: "fn (e1, x1) = (Inl err, e2, x2)"
    using fails [of "(e1, x1)"] by (rule failing_result)
  define cbT where "cbT = cb1\<lparr>failureCount := failureCount cb1 + 1, successCount := 0, state := OPEN,
               nextAttempt := clock e2 (ticks e2) + timeout cb1\<rparr>"
  have reach: "threshold cb1 \<le> failureCount cb1 + 1" using c1 m by simp
  have trip: "execute fn cb1 (e1, x1) = (Inl err, cbT, e2\<lparr>ticks := Suc (ticks e2)\<rparr>, x2)"
    unfolding cbT_def by (rule tripping_call(1) [where fn = fn, OF c1(1) reach f])
  have tripS: "call_states fn cb1 (e1, x1) = [CLOSED, OPEN]"
    by (rule tripping_call(2) [where fn = fn, OF c1(1) reach f])
  have split1: "replicate (nat th) fn = replicate m fn @ [fn]"
    using m by (simp add: replicate_append_same)
  have runT: "execute_all (replicate (nat th) fn) cb (e, x) = (cbT, e2\<lparr>ticks := Suc (ticks e2)\<rparr>, x2)"
    by (simp add: split1 execute_all_append run1 trip)
  have "state_history (replicate m fn @ [fn]) cb (e, x) = replicate (2 * m) CLOSED @ [CLOSED, OPEN]"
    by (simp add: state_history_append run1 h1 tripS trip)
  moreover have "replicate (2 * nat th - 1) CLOSED @ [OPEN] = replicate (2 * m) CLOSED @ [CLOSED, OPEN]"
    using m by (simp add: replicate_append_same)
  ultimately have hT:
    "state_history (replicate (nat th) fn) cb (e, x) = replicate (2 * nat th - 1) CLOSED @ [OPEN]"
    by (simp only: split1)
  have part2: "state (fst (execute_all (replicate (nat th) fn) cb (e, x))) = OPEN"
    by (simp add: runT cbT_def)
  have part3: "nextAttempt (fst (execute_all (replicate (nat th) fn) cb (e, x))) =
        (let e2 = fst (snd (fn (snd (execute_all (replicate (nat th - 1) fn) cb (e, x)))))
         in clock e2 (ticks e2) + tmo)"
  proof -
    have "fst (snd (fn (snd (execute_all (replicate (nat th - 1) fn) cb (e, x))))) = e2"
      using run1 f by (simp add: m_def)
    then show ?thesis using c1 by (simp add: runT cbT_def Let_def)
  qed
  let ?eT = "e2\<lparr>ticks := Suc (ticks e2)\<rparr>"
  let ?early = "\<forall>i < N - nat th. clock ?eT (ticks ?eT + i) < nextAttempt cbT"
  have oT: "state cbT = OPEN" and tT: "threshold cbT \<le> failureCount cbT"
    and cT: "threshold cbT = th" "timeout cbT = tmo"
    using c1 m by (simp_all add: cbT_def)
  have split2: "replicate n fn = replicate (nat th) fn @ replicate (n - nat th) fn"
    if "nat th \<le> n" for n
    using that by (simp add: replicate_add [symmetric])
  have part4: "execute_all (replicate N fn) cb (e, x) =
                 (cbT, ?eT\<lparr>ticks := ticks ?eT + (N - nat th)\<rparr>, x2)
             \<and> state_history (replicate N fn) cb (e, x) =
                 replicate (2 * nat th - 1) CLOSED @ [OPEN]"
    if early: ?early
  proof -
    note rej = rejected_calls [of cbT "N - nat th" ?eT fn x2, OF oT early]
    have a: "execute_all (replicate N fn) cb (e, x) =
               (cbT, ?eT\<lparr>ticks := ticks ?eT + (N - nat th)\<rparr>, x2)"
      using rej by (subst split2 [OF N]) (simp add: execute_all_append runT)
    have b: "state_history (replicate N fn) cb (e, x) = replicate (2 * nat th - 1) CLOSED @ [OPEN]"
      using rej hT by (subst split2 [OF N]) (simp add: state_history_append runT)
    show ?thesis using a b by simp
  qed
  have part5: "openings (CLOSED # state_history (replicate N fn) cb (e, x)) = 1 \<longleftrightarrow> ?early"
  proof -
    from open_phase [of fn cbT "N - nat th" ?eT x2, OF fails oT tT]
    obtain k where k: "state_history (replicate (N - nat th) fn) cbT (?eT, x2) =
        concat (replicate k [HALF_OPEN, OPEN])" "k = 0 \<longleftrightarrow> ?early"
      by auto
    have "state_history (replicate N fn) cb (e, x) =
        replicate (2 * nat th - 1) CLOSED @ [OPEN] @ concat (replicate k [HALF_OPEN, OPEN])"
      using k(1) hT by (subst split2 [OF N]) (simp add: state_history_append runT)
    then have "CLOSED # state_history (replicate N fn) cb (e, x) =
        replicate (Suc (2 * nat th - 1)) CLOSED @ [OPEN] @ concat (replicate k [HALF_OPEN, OPEN])"
      by simp
    then have "openings (CLOSED # state_history (replicate N fn) cb (e, x)) = Suc k"
      by (simp only: openings_run)
    with k(2) show ?thesis by simp
  qed
  have part6: "case execute_all (replicate n fn) cb (e, x) of
           (cbn, en, xn) \<Rightarrow>
             state cbn = OPEN
             \<and> (nextAttempt cbn \<le> clock en (ticks en) \<longrightarrow>
                  call_states fn cbn (en, xn) = [HALF_OPEN, OPEN]
                  \<and> state (fst (snd (execute fn cbn (en, xn)))) = OPEN
                  \<and> nextAttempt (fst (snd (execute fn cbn (en, xn)))) =
                      (let e' = fst (snd (fn (en\<lparr>ticks := Suc (ticks en)\<rparr>, xn)))
                       in clock e' (ticks e') + tmo))"
    if n: "nat th \<le> n" for n
  proof -
    obtain cbn en xn where runN: "execute_all (replicate (n - nat th) fn) cbT (?eT, x2) = (cbn, en, xn)"
      by (metis prod_cases3)
    have runN': "execute_all (replicate n fn) cb (e, x) = (cbn, en, xn)"
      by (subst split2 [OF n]) (simp add: execute_all_append runT runN)
    from open_phase [of fn cbT "n - nat th" ?eT x2, OF fails oT tT] runN cT
    have inv: "state cbn = OPEN" "threshold cbn = th" "timeout cbn = tmo"
      "threshold cbn \<le> failureCount cbn"
      by simp_all
    have late: "call_states fn cbn (en, xn) = [HALF_OPEN, OPEN]
        \<and> state (fst (snd (execute fn cbn (en, xn)))) = OPEN
        \<and> nextAttempt (fst (snd (execute fn cbn (en, xn)))) =
            (let e' = fst (snd (fn (en\<lparr>ticks := Suc (ticks en)\<rparr>, xn)))
             in clock e' (ticks e') + tmo)"
      if l: "nextAttempt cbn \<le> clock en (ticks en)"
    proof -
      obtain err' e3 x3 where f3: "fn (en\<lparr>ticks := Suc (ticks en)\<rparr>, xn) = (Inl err', e3, x3)"
        using fails [of "(en\<lparr>ticks := Suc (ticks en)\<rparr>, xn)"] by (rule failing_result)
      from inv(4) have reach': "threshold cbn \<le> failureCount cbn + 1" by simp
      note lc = late_failing_call [where fn = fn, OF inv(1) reach' l f3]
      show ?thesis using lc inv f3 by (simp add: Let_def)
    qed
    show ?thesis using inv(1) late by (simp add: runN')
  qed
  have part3': "nextAttempt cbT =
        (let e2 = fst (snd (fn (snd (execute_all (replicate (nat th - 1) fn) cb (e, x)))))
         in clock e2 (ticks e2) + tmo)"
    using part3 by (simp add: runT)
  have mid: "case execute_all (replicate (nat th) fn) cb (e, x) of
         (cbT, eT, xT) \<Rightarrow>
           state cbT = OPEN
           \<and> nextAttempt cbT =
               (let e2 = fst (snd (fn (snd (execute_all (replicate (nat th - 1) fn) cb (e, x)))))
                in clock e2 (ticks e2) + tmo)
           \<and> ((\<forall>i < N - nat th. clock eT (ticks eT + i) < nextAttempt cbT) \<longrightarrow>
                 execute_all (replicate N fn) cb (e, x) =
                   (cbT, eT\<lparr>ticks := ticks eT + (N - nat th)\<rparr>, xT)
                 \<and> state_history (replicate N fn) cb (e, x) =
                     replicate (2 * nat th - 1) CLOSED @ [OPEN])
           \<and> (openings (CLOSED # state_history (replicate N fn) cb (e, x)) = 1
                \<longleftrightarrow> (\<forall>i < N - nat th. clock eT (ticks eT + i) < nextAttempt cbT))"
    unfolding runT prod.case
    using oT part3' part4 part5 by blast
  show ?thesis using part1 hT mid part6 by blast
qed

theorem consecutive_failures_open_once_witness:
  "openings (CLOSED # state_history (replicate 5 failing_op)
      (fst (new_CircuitBreaker 3 5000 2 tick_env))
      (snd (new_CircuitBreaker 3 5000 2 tick_env), 0)) = 1
   \<and> state (fst (execute_all (replicate 2 failing_op)
      (fst (new_CircuitBreaker 3 5000 2 tick_env))
      (snd (new_CircuitBreaker 3 5000 2 tick_env), 0))) = CLOSED
   \<and> execute_all (replicate 5 failing_op)
      (fst (new_CircuitBreaker 3 5000 2 tick_env))
      (snd (new_CircuitBreaker 3 5000 2 tick_env), 0) =
        (\<lparr>failureCount = 3, successCount = 0, state = OPEN, nextAttempt = 6001,
          threshold = 3, timeout = 5000, successThreshold = 2\<rparr>,
         tick_env\<lparr>ticks := 4\<rparr>, 3)
   \<and> call_states failing_op (fst (slow_run (replicate 3 failing_op)))
        (snd (slow_run (replicate 3 failing_op))) = [HALF_OPEN, OPEN]
   \<and> nextAttempt (fst (snd (execute failing_op (fst (slow_run (replicate 3 failing_op)))
        (snd (slow_run (replicate 3 failing_op)))))) = 35000"
proof -
  let ?cb = "fst (new_CircuitBreaker 3 5000 2 tick_env)"
  let ?e = "snd (new_CircuitBreaker 3 5000 2 tick_env)"
  let ?sb = "fst (new_CircuitBreaker 3 5000 2 slow_env)"
  let ?se = "snd (new_CircuitBreaker 3 5000 2 slow_env)"
  have th: "(1::int) \<le> 3" by simp
  have fails: "\<And>w. isl (fst (failing_op w))" by (simp add: failing_op_def split_beta)
  have N: "nat 3 \<le> (5::nat)" and N': "nat 3 \<le> (4::nat)" by simp_all
  have two: "(2::nat) < nat 3" and three: "nat 3 \<le> (3::nat)" by simp_all
  have runT: "execute_all (replicate 3 failing_op) ?cb (?e, 0) =
      (\<lparr>failureCount = 3, successCount = 0, state = OPEN, nextAttempt = 6001,
        threshold = 3, timeout = 5000, successThreshold = 2\<rparr>,
       tick_env\<lparr>ticks := 2\<rparr>, 3)"
    by (simp add: numeral_eq_Suc tick_env_def failing_op_def breaker_defs)
  have early: "\<forall>i < 5 - nat 3. clock (tick_env\<lparr>ticks := 2\<rparr>) (ticks (tick_env\<lparr>ticks := 2\<rparr>) + i)
                 < 6001"
    by (simp add: tick_env_def)
  have runS: "execute_all (replicate 3 failing_op) ?sb (?se, 0) =
      (\<lparr>failureCount = 3, successCount = 0, state = OPEN, nextAttempt = 15000,
        threshold = 3, timeout = 5000, successThreshold = 2\<rparr>,
       slow_env\<lparr>ticks := 2\<rparr>, 3)"
    by (simp add: numeral_eq_Suc slow_env_def failing_op_def breaker_defs)
  have late: "(15000::int) \<le> clock (slow_env\<lparr>ticks := 2\<rparr>) (ticks (slow_env\<lparr>ticks := 2\<rparr>))"
    by (simp add: slow_env_def)
  have sr: "slow_run (replicate 3 failing_op) =
      (\<lparr>failureCount = 3, successCount = 0, state = OPEN, nextAttempt = 15000,
        threshold = 3, timeout = 5000, successThreshold = 2\<rparr>,
       slow_env\<lparr>ticks := 2\<rparr>, 3)"
    using runS by (simp add: slow_run_def default_CircuitBreaker_def split_beta)
  have newq: "new_CircuitBreaker 3 5000 2 tick_env = (?cb, ?e)"
    and news: "new_CircuitBreaker 3 5000 2 slow_env = (?sb, ?se)"
    by simp_all
  note quick = consecutive_failures_open_once
    [where fn = failing_op and x = "0::nat" and N = 5, OF newq th fails N]
  note slow = consecutive_failures_open_once
    [where fn = failing_op and x = "0::nat" and N = 4, OF news th fails N']
  have q: "openings (CLOSED # state_history (replicate 5 failing_op) ?cb (?e, 0)) = 1
      \<and> state (fst (execute_all (replicate 2 failing_op) ?cb (?e, 0))) = CLOSED
      \<and> execute_all (replicate 5 failing_op) ?cb (?e, 0) =
        (\<lparr>failureCount = 3, successCount = 0, state = OPEN, nextAttempt = 6001,
          threshold = 3, timeout = 5000, successThreshold = 2\<rparr>,
         tick_env\<lparr>ticks := 4\<rparr>, 3)"
    using quick early two
    apply (simp add: runT)
    apply (simp add: numeral_eq_Suc)
    done
  have "\<forall>n \<ge> nat 3.
         case execute_all (replicate n failing_op) ?sb (?se, 0) of
           (cbn, en, xn) \<Rightarrow>
             state cbn = OPEN
             \<and> (nextAttempt cbn \<le> clock en (ticks en) \<longrightarrow>
                  call_states failing_op cbn (en, xn) = [HALF_OPEN, OPEN]
                  \<and> state (fst (snd (execute failing_op cbn (en, xn)))) = OPEN
                  \<and> nextAttempt (fst (snd (execute failing_op cbn (en, xn)))) =
                      (let e' = fst (snd (failing_op (en\<lparr>ticks := Suc (ticks en)\<rparr>, xn)))
                       in clock e' (ticks e') + 5000))"
    using slow by simp
  from this [rule_format, OF three] late
  have s: "call_states failing_op (fst (slow_run (replicate 3 failing_op)))
        (snd (slow_run (replicate 3 failing_op))) = [HALF_OPEN, OPEN]
      \<and> nextAttempt (fst (snd (execute failing_op (fst (slow_run (replicate 3 failing_op)))
        (snd (slow_run (replicate 3 failing_op)))))) = 35000"
    apply (simp add: runS sr Let_def)
    apply (simp add: slow_env_def failing_op_def)
    done
  show ?thesis using q s by simp
qed

section \<open>What the command services return and record\<close>

text \<open>The closures in closed form: the readings they take and the event they append.\<close>

lemma createTask_body_eq:
  "createTask_body ttl prio (e, store) =
     (let task = \<lparr>id_t = ''task_'' @ show_int (clock e (ticks e)) @ ''_'' @ random e (draws e),
                  title = ttl, status = pending, priority = prio,
                  createdAt = clock e (Suc (ticks e)), updatedAt = clock e (Suc (Suc (ticks e)))\<rparr>
      in (Inr task, e\<lparr>ticks := ticks e + 4, draws := Suc (draws e)\<rparr>,
          store @ [\<lparr>type_e = TASK_CREATED, payload = task,
                    timestamp = clock e (Suc (Suc (Suc (ticks e)))), aggregateId = id_t task\<rparr>]))"
  by (simp add: createTask_body_def Date_now_def Math_random_suffix_def publishEvent_def Let_def)

lemma updateTaskStatus_body_eq:
  "updateTaskStatus_body task st (e, store) =
     (Inr (task\<lparr>status := st, updatedAt := clock e (ticks e)\<rparr>),
      e\<lparr>ticks := Suc (Suc (ticks e))\<rparr>,
      store @ [\<lparr>type_e = (if st = completed then TASK_COMPLETED else TASK_UPDATED),
                payload = task\<lparr>status := st, updatedAt := clock e (ticks e)\<rparr>,
                timestamp = clock e (Suc (ticks e)), aggregateId = id_t task\<rparr>])"
  by (simp add: updateTaskStatus_body_def Date_now_def publishEvent_def Let_def)

lemma TaskService_createTask_body_eq:
  "TaskService_createTask_body ttl prio (e, ts, store) =
     (let task = \<lparr>id_t = ''task_'' @ show_int (clock e (ticks e)) @ ''_'' @ random e (draws e),
                  title = ttl, status = pending, priority = prio,
                  createdAt = clock e (Suc (ticks e)), updatedAt = clock e (Suc (Suc (ticks e)))\<rparr>
      in (Inr task, e\<lparr>ticks := ticks e + 4, draws := Suc (draws e)\<rparr>, ts @ [task],
          store @ [\<lparr>type_e = TASK_CREATED, payload = task,
                    timestamp = clock e (Suc (Suc (Suc (ticks e)))), aggregateId = id_t task\<rparr>]))"
  by (simp add: TaskService_createTask_body_def Date_now_def Math_random_suffix_def
      publishEvent_def Let_def)

lemma TaskService_updateTaskStatus_body_eq:
  "TaskService_updateTaskStatus_body taskId st (e, ts, store) =
     (case find (\<lambda>t. id_t t = taskId) ts of
        None \<Rightarrow> (Inl (Error ''Task not found''), e, ts, store)
      | Some task \<Rightarrow>
          (Inr (task\<lparr>status := st, updatedAt := clock e (ticks e)\<rparr>),
           e\<lparr>ticks := Suc (Suc (ticks e))\<rparr>,
           map (\<lambda>t. if id_t t = taskId then task\<lparr>status := st, updatedAt := clock e (ticks e)\<rparr>
                     else t) ts,
           store @ [\<lparr>type_e = (if st = completed then TASK_COMPLETED else TASK_UPDATED),
                     payload = task\<lparr>status := st, updatedAt := clock e (ticks e)\<rparr>,
                     timestamp = clock e (Suc (ticks e)), aggregateId = id_t task\<rparr>]))"
  by (simp add: TaskService_updateTaskStatus_body_def Date_now_def publishEvent_def Let_def
      split: option.splits)

text \<open>The service methods in closed form, by what the gate decides.\<close>

lemma createTask_result:
  "createTask ttl prio (e, svc) =
    (case gate (circuitBreaker svc) e of
       (Inl err, e1) \<Rightarrow> (Inl err, e1, svc)
     | (Inr cb1, e1) \<Rightarrow>
        (case createTask_body ttl prio (e1, eventStore svc) of
           (r, e2, store2) \<Rightarrow>
             (r, e2, svc\<lparr>eventStore := store2, circuitBreaker := onSuccess cb1\<rparr>)))"
  by (simp add: createTask_def execute_def attempt_def createTask_body_eq Let_def
      split: prod.splits sum.splits)

lemma updateTaskStatus_result:
  "updateTaskStatus task st (e, svc) =
    (case gate (circuitBreaker svc) e of
       (Inl err, e1) \<Rightarrow> (Inl err, e1, svc)
     | (Inr cb1, e1) \<Rightarrow>
        (Inr (task\<lparr>status := st, updatedAt := clock e1 (ticks e1)\<rparr>),
         e1\<lparr>ticks := Suc (Suc (ticks e1))\<rparr>,
         svc\<lparr>eventStore := eventStore svc @
               [\<lparr>type_e = (if st = completed then TASK_COMPLETED else TASK_UPDATED),
                 payload = task\<lparr>status := st, updatedAt := clock e1 (ticks e1)\<rparr>,
                 timestamp = clock e1 (Suc (ticks e1)), aggregateId = id_t task\<rparr>],
              circuitBreaker := onSuccess cb1\<rparr>))"
  by (simp add: updateTaskStatus_def execute_def attempt_def updateTaskStatus_body_eq
      split: prod.splits sum.splits)

lemma TaskService_createTask_result:
  "TaskService_createTask ttl prio (e, svc) =
    (case gate (circuitBreaker_ts svc) e of
       (Inl err, e1) \<Rightarrow> (Inl err, e1, svc)
     | (Inr cb1, e1) \<Rightarrow>
        (case TaskService_createTask_body ttl prio (e1, tasks svc, eventStore_ts svc) of
           (r, e2, ts2, store2) \<Rightarrow>
             (r, e2, svc\<lparr>tasks := ts2, eventStore_ts := store2,
                         circuitBreaker_ts := onSuccess cb1\<rparr>)))"
  by (simp add: TaskService_createTask_def execute_def attempt_def
      TaskService_createTask_body_eq Let_def split: prod.splits sum.splits)

lemma TaskService_updateTaskStatus_result:
  "TaskService_updateTaskStatus taskId st (e, svc) =
    (case gate (circuitBreaker_ts svc) e of
       (Inl err, e1) \<Rightarrow> (Inl err, e1, svc)
     | (Inr cb1, e1) \<Rightarrow>
        (case find (\<lambda>t. id_t t = taskId) (tasks svc) of
           None \<Rightarrow>
             (Inl (Error ''Task not found''), snd (onFailure cb1 e1),
              svc\<lparr>circuitBreaker_ts := fst (onFailure cb1 e1)\<rparr>)
         | Some task \<Rightarrow>
             (Inr (task\<lparr>status := st, updatedAt := clock e1 (ticks e1)\<rparr>),
              e1\<lparr>ticks := Suc (Suc (ticks e1))\<rparr>,
              svc\<lparr>tasks := map (\<lambda>t. if id_t t = taskId
                                      then task\<lparr>status := st, updatedAt := clock e1 (ticks e1)\<rparr>
                                      else t) (tasks svc),
                  eventStore_ts := eventStore_ts svc @
                    [\<lparr>type_e = (if st = completed then TASK_COMPLETED else TASK_UPDATED),
                      payload = task\<lparr>status := st, updatedAt := clock e1 (ticks e1)\<rparr>,
                      timestamp = clock e1 (Suc (ticks e1)), aggregateId = id_t task\<rparr>],
                  circuitBreaker_ts := onSuccess cb1\<rparr>)))"
  by (simp add: TaskService_updateTaskStatus_def execute_def attempt_def
      TaskService_updateTaskStatus_body_eq split: prod.splits sum.splits option.splits)

lemma find_absent: "taskId \<notin> set (map id_t ts) \<Longrightarrow> find (\<lambda>t. id_t t = taskId) ts = None"
  by (induction ts) auto

subsection \<open>One event for a success, none for a failure\<close>

lemma createTask_one_event:
  "case createTask ttl prio (e, svc) of
     (r, e1, svc1) \<Rightarrow> one_event_or_none (eventStore svc) r (eventStore svc1)"
  by (cases rule: gate_cases [of "circuitBreaker svc" e])
     (simp_all add: createTask_result createTask_body_eq one_event_or_none_def Let_def)

lemma updateTaskStatus_one_event:
  "case updateTaskStatus task st (e, svc) of
     (r, e1, svc1) \<Rightarrow> one_event_or_none (eventStore svc) r (eventStore svc1)"
  by (cases rule: gate_cases [of "circuitBreaker svc" e])
     (simp_all add: updateTaskStatus_result one_event_or_none_def)

lemma TaskService_createTask_one_event:
  "case TaskService_createTask ttl prio (e, svc) of
     (r, e1, svc1) \<Rightarrow> one_event_or_none (eventStore_ts svc) r (eventStore_ts svc1)"
  by (cases rule: gate_cases [of "circuitBreaker_ts svc" e])
     (simp_all add: TaskService_createTask_result TaskService_createTask_body_eq
        one_event_or_none_def Let_def)

lemma TaskService_updateTaskStatus_one_event:
  "case TaskService_updateTaskStatus taskId st (e, svc) of
     (r, e1, svc1) \<Rightarrow> one_event_or_none (eventStore_ts svc) r (eventStore_ts svc1)"
  by (cases rule: gate_cases [of "circuitBreaker_ts svc" e])
     (simp_all add: TaskService_updateTaskStatus_result one_event_or_none_def
        split: option.splits)

text \<open>
  Claim C4. Every call of \<open>createTask\<close> or \<open>updateTaskStatus\<close> that returns a task has
  appended exactly one event to the store, whose payload is the task returned and whose
  \<open>aggregateId\<close> is the id of its payload; every call that fails, rejected by the
  breaker or failed in its operation, has left the store as it was. The operations of
  \<^verbatim>\<open>TaskCommandService\<close> cannot fail; the lookup of \<^verbatim>\<open>TaskService\<close> can, and the
  property holds for both services.
\<close>

theorem commands_append_one_event_or_none:
  "(case createTask ttl prio (e, svc) of
      (r, e1, svc1) \<Rightarrow> one_event_or_none (eventStore svc) r (eventStore svc1))
   \<and> (case updateTaskStatus task st (e, svc) of
      (r, e1, svc1) \<Rightarrow> one_event_or_none (eventStore svc) r (eventStore svc1))
   \<and> (case TaskService_createTask ttl prio (e', tsvc) of
      (r, e1, svc1) \<Rightarrow> one_event_or_none (eventStore_ts tsvc) r (eventStore_ts svc1))
   \<and> (case TaskService_updateTaskStatus taskId st (e', tsvc) of
      (r, e1, svc1) \<Rightarrow> one_event_or_none (eventStore_ts tsvc) r (eventStore_ts svc1))"
  by (intro conjI createTask_one_event updateTaskStatus_one_event
      TaskService_createTask_one_event TaskService_updateTaskStatus_one_event)


theorem commands_append_one_event_or_none_witness:
  "one_event_or_none [] (fst (createTask ''write'' high fresh_command))
     (eventStore (snd (snd (createTask ''write'' high fresh_command))))
   \<and> length (eventStore (snd (snd (createTask ''write'' high fresh_command)))) = 1
   \<and> one_event_or_none [] (fst (TaskService_updateTaskStatus ''ghost'' completed fresh_service))
     (eventStore_ts (snd (snd (TaskService_updateTaskStatus ''ghost'' completed fresh_service))))
   \<and> fst (TaskService_updateTaskStatus ''ghost'' completed fresh_service) =
       Inl (Error ''Task not found'')"
proof -
  have c: "fresh_command = (fst fresh_command, snd fresh_command)"
    and s: "fresh_service = (fst fresh_service, snd fresh_service)" by simp_all
  have e: "eventStore (snd fresh_command) = []" "eventStore_ts (snd fresh_service) = []"
    by (simp_all add: fresh_command_def fresh_service_def new_TaskCommandService_def
        new_TaskService_def breaker_defs)
  have n: "length (eventStore (snd (snd (createTask ''write'' high fresh_command)))) = 1"
    by (simp add: fresh_command_def new_TaskCommandService_def frozen_env_def createTask_result
        createTask_body_eq breaker_defs Let_def)
  have f: "fst (TaskService_updateTaskStatus ''ghost'' completed fresh_service) =
       Inl (Error ''Task not found'')"
    by (simp add: fresh_service_def new_TaskService_def frozen_env_def
        TaskService_updateTaskStatus_result breaker_defs Let_def)
  show ?thesis
    using commands_append_one_event_or_none
      [where ttl = "''write''" and prio = high and e = "fst fresh_command"
         and svc = "snd fresh_command" and task = ghost_task and st = completed
         and e' = "fst fresh_service" and tsvc = "snd fresh_service" and taskId = "''ghost''"]
      n f e
    apply (subst (1 2 3) c)
    apply (subst (1 2 3) s)
    apply (simp add: split_beta)
    done
qed


subsection \<open>The task an update returns\<close>

text \<open>
  Claim C7. A successful \<open>updateTaskStatus\<close> returns the input task with \<open>status\<close> set
  to the target status and \<open>updatedAt\<close> set to the reading of the clock the operation
  takes (the next reading, or the one after it when the gate has read the clock on an
  OPEN breaker); \<open>title\<close>, \<open>id\<close>, \<open>priority\<close> and \<open>createdAt\<close> are those of the input.
\<close>

theorem updateTaskStatus_returns_updated_task:
  assumes "updateTaskStatus task st (e, svc) = (Inr t, e1, svc1)"
  shows "t = task\<lparr>status := st,
                  updatedAt := clock e (if state (circuitBreaker svc) = OPEN
                                        then Suc (ticks e) else ticks e)\<rparr>
       \<and> status t = st \<and> title t = title task \<and> id_t t = id_t task
       \<and> priority t = priority task \<and> createdAt t = createdAt task"
  using assms
  by (cases rule: gate_cases [of "circuitBreaker svc" e]) (auto simp: updateTaskStatus_result)

theorem updateTaskStatus_returns_updated_task_witness:
  "fst (updateTaskStatus ghost_task in_progress fresh_command) =
     Inr (ghost_task\<lparr>status := in_progress, updatedAt := 1000\<rparr>)
   \<and> title (ghost_task\<lparr>status := in_progress, updatedAt := 1000\<rparr>) = title ghost_task"
proof -
  let ?r = "updateTaskStatus ghost_task in_progress (fst fresh_command, snd fresh_command)"
  have v: "fst ?r = Inr (ghost_task\<lparr>status := in_progress, updatedAt := 1000\<rparr>)"
    by (simp add: fresh_command_def new_TaskCommandService_def frozen_env_def
        updateTaskStatus_result breaker_defs)
  then have h: "?r = (Inr (ghost_task\<lparr>status := in_progress, updatedAt := 1000\<rparr>),
                      fst (snd ?r), snd (snd ?r))"
    by (metis prod.collapse)
  show ?thesis using updateTaskStatus_returns_updated_task [OF h] v by simp
qed

subsection \<open>The type of the event an update records\<close>

text \<open>
  Claim C8. The event a successful \<open>updateTaskStatus\<close> appends has type
  \<^verbatim>\<open>TASK_COMPLETED\<close> if and only if the new status is \<open>completed\<close> and type
  \<^verbatim>\<open>TASK_UPDATED\<close> for every other status, \<open>failed\<close> included; it never has type
  \<^verbatim>\<open>TASK_FAILED\<close>. Both services do so.
\<close>

theorem updateTaskStatus_event_type:
  "(updateTaskStatus task st (e, svc) = (Inr t, ea, svca) \<longrightarrow>
      type_e (last (eventStore svca)) = (if st = completed then TASK_COMPLETED else TASK_UPDATED)
      \<and> (type_e (last (eventStore svca)) = TASK_COMPLETED \<longleftrightarrow> st = completed)
      \<and> type_e (last (eventStore svca)) \<noteq> TASK_FAILED)
   \<and> (TaskService_updateTaskStatus taskId st (e', tsvc) = (Inr t', eb, svcb) \<longrightarrow>
      type_e (last (eventStore_ts svcb)) = (if st = completed then TASK_COMPLETED else TASK_UPDATED)
      \<and> (type_e (last (eventStore_ts svcb)) = TASK_COMPLETED \<longleftrightarrow> st = completed)
      \<and> type_e (last (eventStore_ts svcb)) \<noteq> TASK_FAILED)"
proof (intro conjI impI)
  assume "updateTaskStatus task st (e, svc) = (Inr t, ea, svca)"
  then have a: "type_e (last (eventStore svca)) =
                  (if st = completed then TASK_COMPLETED else TASK_UPDATED)"
    by (cases rule: gate_cases [of "circuitBreaker svc" e])
       (auto simp: updateTaskStatus_result)
  then show "type_e (last (eventStore svca)) =
               (if st = completed then TASK_COMPLETED else TASK_UPDATED)"
    and "type_e (last (eventStore svca)) = TASK_COMPLETED \<longleftrightarrow> st = completed"
    and "type_e (last (eventStore svca)) \<noteq> TASK_FAILED"
    by simp_all
next
  assume "TaskService_updateTaskStatus taskId st (e', tsvc) = (Inr t', eb, svcb)"
  then have b: "type_e (last (eventStore_ts svcb)) =
                  (if st = completed then TASK_COMPLETED else TASK_UPDATED)"
    by (cases rule: gate_cases [of "circuitBreaker_ts tsvc" e'])
       (auto simp: TaskService_updateTaskStatus_result split: option.splits)
  then show "type_e (last (eventStore_ts svcb)) =
               (if st = completed then TASK_COMPLETED else TASK_UPDATED)"
    and "type_e (last (eventStore_ts svcb)) = TASK_COMPLETED \<longleftrightarrow> st = completed"
    and "type_e (last (eventStore_ts svcb)) \<noteq> TASK_FAILED"
    by simp_all
qed

lemma stocked_service_eq:
  "stocked_service =
     (frozen_env\<lparr>ticks := 5, draws := 1\<rparr>,
      \<lparr>tasks = [\<lparr>id_t = stocked_id, title = ''write'', status = pending, priority = high,
                 createdAt = 1000, updatedAt = 1000\<rparr>],
       eventStore_ts = [\<lparr>type_e = TASK_CREATED,
                         payload = \<lparr>id_t = stocked_id, title = ''write'', status = pending,
                                    priority = high, createdAt = 1000, updatedAt = 1000\<rparr>,
                         timestamp = 1000, aggregateId = stocked_id\<rparr>],
       circuitBreaker_ts = \<lparr>failureCount = 0, successCount = 0, state = CLOSED,
                            nextAttempt = 1000, threshold = 3, timeout = 5000,
                            successThreshold = 2\<rparr>\<rparr>)"
  by (simp add: stocked_service_def stocked_id_def fresh_service_def new_TaskService_def
      frozen_env_def TaskService_createTask_result TaskService_createTask_body_eq
      breaker_defs Let_def)

theorem updateTaskStatus_event_type_witness:
  "type_e (last (eventStore (snd (snd (updateTaskStatus ghost_task failed fresh_command))))) =
     TASK_UPDATED
   \<and> type_e (last (eventStore_ts
        (snd (snd (TaskService_updateTaskStatus stocked_id failed stocked_service))))) =
     TASK_UPDATED"
proof -
  let ?r = "updateTaskStatus ghost_task failed (fst fresh_command, snd fresh_command)"
  let ?q = "TaskService_updateTaskStatus stocked_id failed
              (fst stocked_service, snd stocked_service)"
  have "fst ?r = Inr (ghost_task\<lparr>status := failed, updatedAt := 1000\<rparr>)"
    by (simp add: fresh_command_def new_TaskCommandService_def frozen_env_def
        updateTaskStatus_result breaker_defs)
  then have h: "?r = (Inr (ghost_task\<lparr>status := failed, updatedAt := 1000\<rparr>),
                      fst (snd ?r), snd (snd ?r))"
    by (metis prod.collapse)
  have "fst ?q = Inr (\<lparr>id_t = stocked_id, title = ''write'', status = failed, priority = high,
                       createdAt = 1000, updatedAt = 1000\<rparr>)"
    by (simp add: stocked_service_eq frozen_env_def TaskService_updateTaskStatus_result gate_def)
  then have k: "?q = (Inr (\<lparr>id_t = stocked_id, title = ''write'', status = failed,
                            priority = high, createdAt = 1000, updatedAt = 1000\<rparr>),
                      fst (snd ?q), snd (snd ?q))"
    by (metis prod.collapse)
  show ?thesis
    using updateTaskStatus_event_type
      [where task = ghost_task and st = failed and e = "fst fresh_command"
         and svc = "snd fresh_command" and ea = "fst (snd ?r)" and svca = "snd (snd ?r)"
         and t = "ghost_task\<lparr>status := failed, updatedAt := 1000\<rparr>"
         and taskId = stocked_id and e' = "fst stocked_service" and tsvc = "snd stocked_service"
         and eb = "fst (snd ?q)" and svcb = "snd (snd ?q)"
         and t' = "\<lparr>id_t = stocked_id, title = ''write'', status = failed, priority = high,
                     createdAt = 1000, updatedAt = 1000\<rparr>"]
      h k
    by simp
qed

subsection \<open>No existence check in the update by value\<close>

text \<open>
  Claim C10. \<open>updateTaskStatus\<close> of \<^verbatim>\<open>TaskCommandService\<close> takes the task by value and
  checks nothing about it: for every task, whether or not \<open>createTask\<close> has ever
  produced its id, a call that the breaker lets through (the breaker is not OPEN, or its
  cooldown has elapsed) succeeds and appends one \<^verbatim>\<open>TASK_UPDATED\<close> or
  \<^verbatim>\<open>TASK_COMPLETED\<close> event with the task's id as \<open>aggregateId\<close>. So where the log held
  no \<^verbatim>\<open>TASK_CREATED\<close> event for that id, it now holds an update event for an id that
  no \<^verbatim>\<open>TASK_CREATED\<close> event precedes.
\<close>

theorem updateTaskStatus_no_existence_check:
  assumes "state (circuitBreaker svc) \<noteq> OPEN \<or> nextAttempt (circuitBreaker svc) \<le> clock e (ticks e)"
  shows "case updateTaskStatus task st (e, svc) of
           (r, e1, svc1) \<Rightarrow>
             r = Inr (task\<lparr>status := st,
                           updatedAt := clock e (if state (circuitBreaker svc) = OPEN
                                                 then Suc (ticks e) else ticks e)\<rparr>)
             \<and> eventStore svc1 = eventStore svc @ [last (eventStore svc1)]
             \<and> aggregateId (last (eventStore svc1)) = id_t task
             \<and> type_e (last (eventStore svc1)) =
                 (if st = completed then TASK_COMPLETED else TASK_UPDATED)
             \<and> (id_t task \<notin> set (created_ids (eventStore svc)) \<longrightarrow>
                  aggregateId (last (eventStore svc1)) \<notin> set (created_ids (eventStore svc1)))"
  using assms
  by (cases rule: gate_cases [of "circuitBreaker svc" e])
     (auto simp: updateTaskStatus_result created_ids_def)

theorem updateTaskStatus_no_existence_check_witness:
  "eventStore (snd fresh_command) = []
   \<and> fst (updateTaskStatus ghost_task completed fresh_command) =
       Inr (ghost_task\<lparr>status := completed, updatedAt := 1000\<rparr>)
   \<and> map type_e (eventStore (snd (snd (updateTaskStatus ghost_task completed fresh_command)))) =
       [TASK_COMPLETED]
   \<and> map aggregateId (eventStore (snd (snd (updateTaskStatus ghost_task completed fresh_command)))) =
       [''ghost'']
   \<and> created_ids (eventStore (snd (snd (updateTaskStatus ghost_task completed fresh_command)))) = []"
proof -
  have v: "fresh_command =
      (frozen_env\<lparr>ticks := 1\<rparr>,
       \<lparr>eventStore = [],
        circuitBreaker = \<lparr>failureCount = 0, successCount = 0, state = CLOSED, nextAttempt = 1000,
                          threshold = 3, timeout = 5000, successThreshold = 2\<rparr>\<rparr>)"
    by (simp add: fresh_command_def new_TaskCommandService_def frozen_env_def breaker_defs)
  have a: "state (circuitBreaker (snd fresh_command)) \<noteq> OPEN
         \<or> nextAttempt (circuitBreaker (snd fresh_command))
             \<le> clock (fst fresh_command) (ticks (fst fresh_command))"
    by (simp add: v)
  show ?thesis
    using updateTaskStatus_no_existence_check [OF a, where task = ghost_task and st = completed]
    by (simp add: v frozen_env_def updateTaskStatus_result gate_def created_ids_def
        ghost_task_def)
qed

subsection \<open>An id that is not in the store\<close>

text \<open>
  Claim C3 says that \<open>updateTaskStatus\<close> of \<^verbatim>\<open>TaskService\<close>, given an id absent from the
  store, fails before the breaker is invoked and leaves the breaker's counters and
  state unchanged. The lookup is inside the operation that the breaker runs: on a new
  service the failed lookup is counted, \<open>failureCount\<close> goes from 0 to 1.
\<close>

theorem TaskService_update_absent_id_counterexample:
  "failureCount (circuitBreaker_ts (snd fresh_service)) = 0
   \<and> failureCount (circuitBreaker_ts
        (snd (snd (TaskService_updateTaskStatus ''ghost'' completed fresh_service)))) = 1"
  by (simp add: fresh_service_def new_TaskService_def frozen_env_def
      TaskService_updateTaskStatus_result breaker_defs Let_def)

text \<open>
  Claim C3, amended. \<open>updateTaskStatus\<close> of \<^verbatim>\<open>TaskService\<close>, given an id absent from the
  store, fails, appends no event and leaves the task collection unchanged. The lookup
  runs inside the operation the breaker gates: when the breaker lets the call through,
  the failure is "Task not found" and the breaker counts it (\<open>failureCount\<close> grows by
  one, \<open>successCount\<close> is 0, and the breaker is what \<^verbatim>\<open>onFailure\<close> makes of it); when
  the breaker is OPEN and cooling down, the failure is the breaker's own and the breaker
  is unchanged.
\<close>

theorem TaskService_update_absent_id:
  assumes "taskId \<notin> set (map id_t (tasks svc))"
  shows "case TaskService_updateTaskStatus taskId st (e, svc) of
           (r, e1, svc1) \<Rightarrow>
             tasks svc1 = tasks svc \<and> eventStore_ts svc1 = eventStore_ts svc
             \<and> (case gate (circuitBreaker_ts svc) e of
                  (Inl err, e2) \<Rightarrow>
                    r = Inl (Error ''Circuit breaker is OPEN'')
                    \<and> circuitBreaker_ts svc1 = circuitBreaker_ts svc
                | (Inr cb1, e2) \<Rightarrow>
                    r = Inl (Error ''Task not found'')
                    \<and> circuitBreaker_ts svc1 = fst (onFailure cb1 e2)
                    \<and> failureCount (circuitBreaker_ts svc1) =
                        failureCount (circuitBreaker_ts svc) + 1
                    \<and> successCount (circuitBreaker_ts svc1) = 0)"
  using find_absent [OF assms]
  by (cases rule: gate_cases [of "circuitBreaker_ts svc" e])
     (simp_all add: TaskService_updateTaskStatus_result onFailure_def Date_now_def Let_def)

theorem TaskService_update_absent_id_witness:
  "''ghost'' \<notin> set (map id_t (tasks (snd fresh_service)))
   \<and> fst (TaskService_updateTaskStatus ''ghost'' completed fresh_service) =
       Inl (Error ''Task not found'')
   \<and> eventStore_ts (snd (snd (TaskService_updateTaskStatus ''ghost'' completed fresh_service))) = []
   \<and> successCount (circuitBreaker_ts
        (snd (snd (TaskService_updateTaskStatus ''ghost'' completed fresh_service)))) = 0"
proof -
  have v: "fresh_service =
      (frozen_env\<lparr>ticks := 1\<rparr>,
       \<lparr>tasks = [], eventStore_ts = [],
        circuitBreaker_ts = \<lparr>failureCount = 0, successCount = 0, state = CLOSED,
                             nextAttempt = 1000, threshold = 3, timeout = 5000,
                             successThreshold = 2\<rparr>\<rparr>)"
    by (simp add: fresh_service_def new_TaskService_def frozen_env_def breaker_defs)
  have a: "''ghost'' \<notin> set (map id_t (tasks (snd fresh_service)))" by (simp add: v)
  show ?thesis
    using TaskService_update_absent_id [OF a, where st = completed and e = "fst fresh_service"] a
    by (simp add: v gate_def split_beta onFailure_successCount)
qed

section \<open>The recent events\<close>

text \<open>
  Claim C2 says that \<open>getRecentEvents\<close> returns the empty sequence for every
  \<open>limit \<le> 0\<close>. On a log of two events, limit 0 returns both and limit -1 returns the
  later one.
\<close>

theorem getRecentEvents_nonpositive_limit_counterexample:
  "getRecentEvents [event_a, event_b] 0 = [event_b, event_a]
   \<and> getRecentEvents [event_a, event_b] (- 1) = [event_b]"
  by (simp add: getRecentEvents_def slice_from_def)

text \<open>
  Claim C2, amended. For every \<open>limit < 0\<close>, \<open>getRecentEvents\<close> skips the first
  \<open>- limit\<close> events and returns the others, the most recent first; the result is the
  empty sequence exactly when the log has at most \<open>- limit\<close> events.
\<close>

theorem getRecentEvents_negative_limit:
  assumes "limit < 0"
  shows "getRecentEvents events limit = rev (drop (nat (- limit)) events)
       \<and> (getRecentEvents events limit = [] \<longleftrightarrow> int (length events) \<le> - limit)"
  using assms by (auto simp: getRecentEvents_def slice_from_def Let_def min_def)

theorem getRecentEvents_negative_limit_witness:
  "(- 2 :: int) < 0
   \<and> getRecentEvents [event_a, event_b] (- 2) = rev (drop (nat (- (- 2))) [event_a, event_b])
   \<and> getRecentEvents [event_a, event_b] (- 2) = []"
  using getRecentEvents_negative_limit [of "- 2" "[event_a, event_b]"] by simp

text \<open>For a positive limit the code does what its name says.\<close>

lemma getRecentEvents_positive_limit:
  "0 < limit \<Longrightarrow> getRecentEvents events limit = take (nat limit) (rev events)"
  by (auto simp: getRecentEvents_def slice_from_def Let_def max_def take_rev nat_diff_distrib')


end
